theory Spec2Isabelle
  imports Complex_Main "HOL-Library.Multiset"
begin

section \<open>Data model (types.ts)\<close>

text \<open>
  A JavaScript \<open>number\<close> is modelled as an exact rational: the rounding error of IEEE
  doubles, \<open>NaN\<close> and the infinities are outside the model. A JavaScript string
  is a list of 8-bit code units.
\<close>

type_synonym number = rat

text \<open>
  The fields \<open>id\<close>, \<open>term\<close> and \<open>definition\<close> of the interface \<open>Term\<close> carry a
  prefix here, since the plain names are taken in Isabelle.
\<close>

record Term =
  term_id :: string
  chapterId :: string
  term_text :: string
  term_definition :: string
  aiExplanation :: "string option"

record UserProgress =
  termId :: string
  interval :: number
  repetition :: number
  efactor :: number
  nextReviewDate :: number

text \<open>
  \<open>type Rating = 0 | 1 | 2 | 3 | 4 | 5\<close> is a compile-time type only; at run time a
  rating is a number, and the scheduler receives whatever number its caller passes.
\<close>

type_synonym Rating = number

definition validRating :: "Rating \<Rightarrow> bool" where
  "validRating r = (r = 0 \<or> r = 1 \<or> r = 2 \<or> r = 3 \<or> r = 4 \<or> r = 5)"

section \<open>Scheduler (utils/sm2.ts)\<close>

definition oneDay :: number where
  "oneDay = 24 * 60 * 60 * 1000"

text \<open>\<open>Math.round\<close> rounds to the nearest integer, halves towards plus infinity.\<close>

definition Math_round :: "number \<Rightarrow> number" where
  "Math_round x = of_int \<lfloor>x + 1 / 2\<rfloor>"

text \<open>
  \<open>calculateNextReview\<close> reads the wall clock through \<open>Date.now()\<close>. The value that
  read returns is the first argument \<open>date_now\<close> of the model; the remaining three
  arguments are the parameters of the source function.
\<close>

definition calculateNextReview ::
    "number \<Rightarrow> UserProgress option \<Rightarrow> Rating \<Rightarrow> string \<Rightarrow> UserProgress" where
  "calculateNextReview date_now currentProgress rating tid =
    (let (repetition0, interval0, efactor0) =
           (case currentProgress of
              None \<Rightarrow> (0, 0, 5 / 2)
            | Some p \<Rightarrow> (repetition p, interval p, efactor p));
         (repetition1, interval1) =
           (if rating \<ge> 3 then
              (repetition0 + 1,
               if repetition0 = 0 then (if rating = 5 then 4 else 1)
               else if repetition0 = 1 then 6
               else Math_round (interval0 * efactor0))
            else (0, 1));
         efactor1 = efactor0 + (1 / 10 - (5 - rating) * (8 / 100 + (5 - rating) * (2 / 100)));
         efactor2 = (if efactor1 < 13 / 10 then 13 / 10 else efactor1);
         nextReviewDate1 = date_now + interval1 * oneDay
     in \<lparr> termId = tid, interval = interval1, repetition = repetition1,
          efactor = efactor2, nextReviewDate = nextReviewDate1 \<rparr>)"

text \<open>\<open>isDue\<close> reads the wall clock too; \<open>date_now\<close> is the value it reads.\<close>

definition isDue :: "number \<Rightarrow> UserProgress option \<Rightarrow> bool" where
  "isDue date_now progress =
    (case progress of
       None \<Rightarrow> True
     | Some p \<Rightarrow> date_now \<ge> nextReviewDate p)"

text \<open>
  A finite sequence of ratings applied to one term: each step is one call of
  \<open>calculateNextReview\<close> on the record the previous call returned, at the clock
  reading of that step.
\<close>

fun rateAll :: "UserProgress option \<Rightarrow> (number \<times> Rating) list \<Rightarrow> string \<Rightarrow> UserProgress option" where
  "rateAll p [] tid = p"
| "rateAll p ((date_now, rating) # rest) tid =
     rateAll (Some (calculateNextReview date_now p rating tid)) rest tid"

text \<open>The ease factor the scheduler starts from: the stored one, or the seed 2.5.\<close>

definition easeOf :: "UserProgress option \<Rightarrow> number" where
  "easeOf p = (case p of None \<Rightarrow> 5 / 2 | Some q \<Rightarrow> efactor q)"












section \<open>Session queue manager (App.tsx)\<close>

text \<open>
  The component state of \<open>App\<close>, one field for each \<open>useState\<close>. The dictionary
  \<open>progress\<close> is a map from term ids to records. The copies that \<open>saveProgress\<close> and
  \<open>saveTime\<close> write to \<open>localStorage\<close> are not part of the state.
\<close>

record AppState =
  selectedChapter :: "string option"
  progress :: "string \<rightharpoonup> UserProgress"
  sessionDeck :: "Term list"
  activeCardIndex :: nat
  quizActive :: bool
  totalStudyTime :: number
  sessionStartTime :: "number option"
  currentSessionDuration :: number
  mixedCount :: number

text \<open>JavaScript truthiness of \<open>string | null\<close> and of \<open>number | null\<close>.\<close>

definition truthyString :: "string option \<Rightarrow> bool" where
  "truthyString v = (case v of None \<Rightarrow> False | Some str \<Rightarrow> str \<noteq> [])"

definition truthyNumber :: "number option \<Rightarrow> bool" where
  "truthyNumber v = (case v of None \<Rightarrow> False | Some n \<Rightarrow> n \<noteq> 0)"

text \<open>
  The view that \<open>App\<close> renders from its state: the chapter list when no chapter is
  selected, the quiz, the card of an active session while the deck is not empty, and
  the "Session Complete!" summary once it is.
\<close>

datatype Phase = Idle | QuizView | Active | Complete

definition phaseOf :: "AppState \<Rightarrow> Phase" where
  "phaseOf s =
    (if \<not> truthyString (selectedChapter s) then Idle
     else if quizActive s then QuizView
     else if length (sessionDeck s) > 0 then Active
     else Complete)"

definition saveProgress :: "(string \<rightharpoonup> UserProgress) \<Rightarrow> AppState \<Rightarrow> AppState" where
  "saveProgress newProgress s = s\<lparr> progress := newProgress \<rparr>"

definition saveTime :: "number \<Rightarrow> AppState \<Rightarrow> AppState" where
  "saveTime newTotalTime s = s\<lparr> totalStudyTime := newTotalTime \<rparr>"

text \<open>
  An event handler reads the state of the render it was created in (\<open>snap\<close> below) and
  queues its updates; React applies the queued updates in order. The handlers are
  modelled as functions from that snapshot to the state after the queue has been
  applied. Every \<open>Date.now()\<close> is an argument.
\<close>

definition stopSessionTimer :: "number \<Rightarrow> AppState \<Rightarrow> AppState \<Rightarrow> AppState" where
  "stopSessionTimer date_now snap s =
    (if truthyNumber (sessionStartTime snap) then
       (let sessionSeconds = (date_now - the (sessionStartTime snap)) / 1000
        in (saveTime (totalStudyTime snap + sessionSeconds) s)
             \<lparr> currentSessionDuration := sessionSeconds, sessionStartTime := None \<rparr>)
     else s)"

text \<open>
  \<open>handleRate\<close>: \<open>now_review\<close> is the clock reading inside \<open>calculateNextReview\<close>,
  \<open>now_stop\<close> the one inside \<open>stopSessionTimer\<close>. The test
  \<open>activeCardIndex < sessionDeck.length - 1\<close> reads the deck of the snapshot, not the
  deck with the card just appended.
\<close>

definition handleRate :: "number \<Rightarrow> number \<Rightarrow> Rating \<Rightarrow> AppState \<Rightarrow> AppState" where
  "handleRate now_review now_stop rating snap =
    (if \<not> truthyString (selectedChapter snap) then snap
     else if length (sessionDeck snap) = 0 then snap
     else if \<not> activeCardIndex snap < length (sessionDeck snap) then snap
     else
       (let currentTerm = sessionDeck snap ! activeCardIndex snap;
            currentProgress = progress snap (term_id currentTerm);
            newTermProgress =
              calculateNextReview now_review currentProgress rating (term_id currentTerm);
            newProgress = (progress snap)(term_id currentTerm \<mapsto> newTermProgress);
            s1 = saveProgress newProgress snap;
            s2 = (if rating < 3 then s1\<lparr> sessionDeck := sessionDeck s1 @ [currentTerm] \<rparr>
                  else s1)
        in if int (activeCardIndex snap) < int (length (sessionDeck snap)) - 1
           then s2\<lparr> activeCardIndex := activeCardIndex s2 + 1 \<rparr>
           else (stopSessionTimer now_stop snap s2)
                  \<lparr> sessionDeck := [], activeCardIndex := 0 \<rparr>))"

text \<open>
  \<open>Array.prototype.slice(0, end)\<close>: the end index is truncated to an integer, a negative
  one counts from the end of the array, and the result is cut at the array's length.
\<close>

definition truncNumber :: "number \<Rightarrow> int" where
  "truncNumber x = (if 0 \<le> x then \<lfloor>x\<rfloor> else \<lceil>x\<rceil>)"

definition slice0 :: "'a list \<Rightarrow> number \<Rightarrow> 'a list" where
  "slice0 xs end_ix =
    (let len = int (length xs); rel = truncNumber end_ix;
         final = (if rel < 0 then max (len + rel) 0 else min rel len)
     in take (nat final) xs)"

text \<open>
  \<open>startMixedSession\<close>: the catalogue \<open>TERMS\<close> of the module \<open>data\<close> is a parameter, and
  so is the outcome of \<open>allTerms.sort(() => 0.5 - Math.random())\<close>, the function
  \<open>shuffle\<close>.
\<close>

definition startMixedSession ::
    "number \<Rightarrow> (Term list \<Rightarrow> Term list) \<Rightarrow> Term list \<Rightarrow> AppState \<Rightarrow> AppState" where
  "startMixedSession date_now shuffle TERMS snap =
    (let allTerms = shuffle TERMS;
         deck = slice0 allTerms (max 1 (min (mixedCount snap) (of_nat (length allTerms))))
     in snap\<lparr> sessionDeck := deck, selectedChapter := Some ''MIXED'', quizActive := False,
              activeCardIndex := 0, sessionStartTime := Some date_now \<rparr>)"

section \<open>Question generator (components/Quiz.tsx)\<close>

datatype QuestionType = MultipleChoice | Input

datatype Feedback = Correct | Incorrect

text \<open>
  The interface \<open>Question\<close>; its fields \<open>term\<close> and \<open>type\<close> carry a prefix here.
  \<open>generateQuiz\<close> always sets \<open>options\<close>, to the empty array for an input question.
\<close>

record Question =
  question_term :: Term
  question_type :: QuestionType
  options :: "string list"

record QuizState =
  questions :: "Question list"
  currentIndex :: nat
  score :: nat
  showSummary :: bool
  inputAnswer :: string
  feedback :: "Feedback option"
  selectedOption :: "string option"

text \<open>
  The random draws made for one question: the value of \<open>Math.random()\<close> that picks the
  question type, and the outcomes of the two calls of \<open>sort(() => 0.5 - Math.random())\<close>,
  on the other terms and on the options.
\<close>

record QuestionDraws =
  typeDraw :: number
  sortDistractors :: "Term list \<Rightarrow> Term list"
  sortOptions :: "string list \<Rightarrow> string list"

definition makeQuestion :: "QuestionDraws \<Rightarrow> Term list \<Rightarrow> Term \<Rightarrow> Question" where
  "makeQuestion d terms t =
    (let ty = (if typeDraw d > 1 / 2 then MultipleChoice else Input);
         opts =
           (if ty = MultipleChoice then
              (let distractors =
                     map term_text
                       (take 3 (sortDistractors d (filter (\<lambda>x. term_id x \<noteq> term_id t) terms)))
               in sortOptions d (distractors @ [term_text t]))
            else [])
     in \<lparr> question_term = t, question_type = ty, options = opts \<rparr>)"

text \<open>
  \<open>generateQuiz\<close>: \<open>shuffle\<close> is the outcome of the first random sort, \<open>draws i\<close> are the
  draws for the question at position \<open>i\<close>. With no terms the function returns before
  it sets any state.
\<close>

definition generateQuiz ::
    "(Term list \<Rightarrow> Term list) \<Rightarrow> (nat \<Rightarrow> QuestionDraws) \<Rightarrow> Term list \<Rightarrow> QuizState \<Rightarrow> QuizState" where
  "generateQuiz shuffle draws terms st =
    (if length terms = 0 then st
     else
       (let shuffled = shuffle terms;
            selected = take (min 10 (length terms)) shuffled;
            newQuestions =
              map (\<lambda>(i, t). makeQuestion (draws i) terms t) (enumerate 0 selected)
        in \<lparr> questions = newQuestions, currentIndex = 0, score = 0, showSummary = False,
             inputAnswer = [], feedback = None, selectedOption = None \<rparr>))"

section \<open>Answer verifier (components/Quiz.tsx)\<close>

text \<open>
  Strings are lists of 8-bit code units (Latin-1). On these, \<open>toLowerCase\<close> adds 32 to
  the capital letters \<open>A\<close>..\<open>Z\<close> and to the accented capitals 192..222 other than the
  multiplication sign 215, and leaves every other unit as it is.
\<close>

definition toLowerCase :: "string \<Rightarrow> string" where
  "toLowerCase str =
    map (\<lambda>c. let n = (of_char c :: nat)
             in if (65 \<le> n \<and> n \<le> 90) \<or> (192 \<le> n \<and> n \<le> 222 \<and> n \<noteq> 215)
                then char_of (n + 32) else c) str"

text \<open>The character class \<open>[a-z0-9]\<close>.\<close>

definition isLowerAlnum :: "char \<Rightarrow> bool" where
  "isLowerAlnum c =
    (let n = (of_char c :: nat) in (97 \<le> n \<and> n \<le> 122) \<or> (48 \<le> n \<and> n \<le> 57))"

text \<open>\<open>normalize = str => str.toLowerCase().replace(/[^a-z0-9]/g, '')\<close>\<close>

definition normalize :: "string \<Rightarrow> string" where
  "normalize str = filter isLowerAlnum (toLowerCase str)"

text \<open>
  One match of the regular expression \<open>\([^)]+\)\<close> at the head of a string: an opening
  parenthesis, the longest run of characters other than \<open>)\<close>, which must not be empty,
  and a closing parenthesis. The result is the matched text and the rest of the string.
\<close>

definition matchParen :: "string \<Rightarrow> (string \<times> string) option" where
  "matchParen str =
    (case str of
       [] \<Rightarrow> None
     | c # rest \<Rightarrow>
         if c = CHR ''(''
         then (let body = takeWhile (\<lambda>x. x \<noteq> CHR '')'') rest;
                   after = dropWhile (\<lambda>x. x \<noteq> CHR '')'') rest
               in if body \<noteq> [] \<and> after \<noteq> []
                  then Some (c # body @ [CHR '')''], tl after)
                  else None)
         else None)"

lemma matchParen_shorter:
  assumes "matchParen str = Some (m, rest)"
  shows "length rest < length str"
proof (cases str)
  case Nil
  then show ?thesis using assms by (simp add: matchParen_def)
next
  case (Cons c cs)
  have "length (dropWhile (\<lambda>x. x \<noteq> CHR '')'') cs) \<le> length cs"
    by (rule length_dropWhile_le)
  then show ?thesis
    using assms Cons by (auto simp: matchParen_def Let_def split: if_splits)
qed

text \<open>
  \<open>correctTerm.match(/\(([^)]+)\)/g)\<close>: all matches from left to right, each search
  resuming after the previous match; no match gives \<open>null\<close>, here the empty list.
\<close>

function parenMatches :: "string \<Rightarrow> string list" where
  "parenMatches [] = []"
| "parenMatches (c # cs) =
     (case matchParen (c # cs) of
        Some (m, rest) \<Rightarrow> m # parenMatches rest
      | None \<Rightarrow> parenMatches cs)"
  by pat_completeness auto
termination
  by (relation "measure length") (auto dest: matchParen_shorter)

text \<open>\<open>correctTerm.replace(/\([^)]+\)/g, '')\<close>\<close>

function removeParens :: "string \<Rightarrow> string" where
  "removeParens [] = []"
| "removeParens (c # cs) =
     (case matchParen (c # cs) of
        Some (m, rest) \<Rightarrow> removeParens rest
      | None \<Rightarrow> c # removeParens cs)"
  by pat_completeness auto
termination
  by (relation "measure length") (auto dest: matchParen_shorter)

text \<open>\<open>trim\<close> removes white space and line terminators from both ends.\<close>

definition isWhiteSpace :: "char \<Rightarrow> bool" where
  "isWhiteSpace c = ((of_char c :: nat) \<in> {9, 10, 11, 12, 13, 32, 160})"

definition trim :: "string \<Rightarrow> string" where
  "trim str = rev (dropWhile isWhiteSpace (rev (dropWhile isWhiteSpace str)))"

text \<open>\<open>str.split(sep)\<close> for a separator of one character.\<close>

fun splitString :: "char \<Rightarrow> string \<Rightarrow> string list" where
  "splitString sep [] = [[]]"
| "splitString sep (c # cs) =
     (if c = sep then [] # splitString sep cs
      else (case splitString sep cs of
              [] \<Rightarrow> [[c]]
            | w # ws \<Rightarrow> (c # w) # ws))"

text \<open>
  The matrix of \<open>getLevenshteinDistance\<close>: an array of rows, every cell \<open>null\<close> (here
  \<open>None\<close>) until it is assigned. In arithmetic \<open>null\<close> counts as 0.
\<close>

type_synonym matrix = "nat option list list"

definition numOf :: "nat option \<Rightarrow> nat" where
  "numOf v = (case v of None \<Rightarrow> 0 | Some n \<Rightarrow> n)"

text \<open>The assignment \<open>matrix[j][i] = v\<close>.\<close>

definition setCell :: "matrix \<Rightarrow> nat \<Rightarrow> nat \<Rightarrow> nat option \<Rightarrow> matrix" where
  "setCell m j i v = m[j := (m ! j)[i := v]]"

text \<open>The body of the inner loop, for row \<open>j\<close> and column \<open>i\<close>.\<close>

definition levCell :: "string \<Rightarrow> string \<Rightarrow> nat \<Rightarrow> nat \<Rightarrow> matrix \<Rightarrow> matrix" where
  "levCell a b j i m =
    (let indicator = (if a ! (i - 1) = b ! (j - 1) then 0 else 1)
     in setCell m j i
          (Some (min (min (numOf (m ! j ! (i - 1)) + 1)
                          (numOf (m ! (j - 1) ! i) + 1))
                     (numOf (m ! (j - 1) ! (i - 1)) + indicator))))"

definition getLevenshteinDistance :: "string \<Rightarrow> string \<Rightarrow> nat option" where
  "getLevenshteinDistance a b =
    (let m0 = replicate (length b + 1) (replicate (length a + 1) None);
         m1 = fold (\<lambda>i m. setCell m 0 i (Some i)) [0..<length a + 1] m0;
         m2 = fold (\<lambda>j m. setCell m j 0 (Some j)) [0..<length b + 1] m1;
         m3 = fold (\<lambda>j m. fold (\<lambda>i m. levCell a b j i m) [1..<length a + 1] m)
                [1..<length b + 1] m2
     in m3 ! length b ! length a)"

text \<open>The alternatives that \<open>checkAnswerSmart\<close> collects for a term, in order.\<close>

definition candidates :: "string \<Rightarrow> string list" where
  "candidates correctTerm =
    (let target = normalize correctTerm;
         inParens = parenMatches correctTerm;
         withoutParens = trim (removeParens correctTerm)
     in [target]
        @ map normalize inParens
        @ (if withoutParens \<noteq> [] then [normalize withoutParens] else [])
        @ (if CHR ''/'' \<in> set correctTerm then map normalize (splitString CHR ''/'' correctTerm)
           else []))"

text \<open>The loop over the candidates, which returns at the first fuzzy match.\<close>

fun fuzzyMatch :: "string \<Rightarrow> string list \<Rightarrow> bool" where
  "fuzzyMatch user [] = False"
| "fuzzyMatch user (cand # rest) =
     (if length cand > 3 then
        (let dist = getLevenshteinDistance user cand;
             allowedErrors = \<lfloor>of_nat (length cand) * (1 / 4 :: number)\<rfloor>
         in if int (numOf dist) \<le> allowedErrors then True else fuzzyMatch user rest)
      else fuzzyMatch user rest)"

definition checkAnswerSmart :: "string \<Rightarrow> string \<Rightarrow> bool" where
  "checkAnswerSmart input correctTerm =
    (let user = normalize input; target = normalize correctTerm
     in if user = [] then False
        else if user = target then True
        else if user \<in> set (candidates correctTerm) then True
        else fuzzyMatch user (candidates correctTerm))"

text \<open>
  The Levenshtein distance with unit costs, by its recursive definition: the least of
  deleting the first character, inserting one, and substituting (or keeping) one.
\<close>

fun levenshtein :: "'a list \<Rightarrow> 'a list \<Rightarrow> nat" where
  "levenshtein [] ys = length ys"
| "levenshtein (x # xs) [] = length (x # xs)"
| "levenshtein (x # xs) (y # ys) =
     min (min (levenshtein xs (y # ys) + 1) (levenshtein (x # xs) ys + 1))
         (levenshtein xs ys + (if x = y then 0 else 1))"

text \<open>
  Edit scripts: \<open>edits n xs ys\<close> holds when \<open>xs\<close> is turned into \<open>ys\<close> by \<open>n\<close> insertions,
  deletions and substitutions of single characters.
\<close>

inductive edits :: "nat \<Rightarrow> 'a list \<Rightarrow> 'a list \<Rightarrow> bool" where
  edits_nil: "edits 0 [] []"
| edits_keep: "edits n xs ys \<Longrightarrow> edits n (x # xs) (x # ys)"
| edits_subst: "edits n xs ys \<Longrightarrow> edits (Suc n) (x # xs) (y # ys)"
| edits_del: "edits n xs ys \<Longrightarrow> edits (Suc n) (x # xs) ys"
| edits_ins: "edits n xs ys \<Longrightarrow> edits (Suc n) xs (y # ys)"

text \<open>
  The matrix in which the cells selected by \<open>F\<close> hold the distance between the
  prefixes of \<open>a\<close> and \<open>b\<close> of their column's and row's lengths, and the others are
  still \<open>null\<close>.
\<close>

definition levMatrix :: "string \<Rightarrow> string \<Rightarrow> (nat \<Rightarrow> nat \<Rightarrow> bool) \<Rightarrow> matrix" where
  "levMatrix a b F =
    map (\<lambda>r. map (\<lambda>c. if F r c then Some (levenshtein (take c a) (take r b)) else None)
               [0..<length a + 1])
        [0..<length b + 1]"

section \<open>Properties of the scheduler\<close>

lemma calculateNextReview_efactor_floor:
  "13 / 10 \<le> efactor (calculateNextReview date_now p rating tid)"
  by (simp add: calculateNextReview_def Let_def split: option.split prod.split)

text \<open>
  Claim C1, as the code has it: from the state with repetition 1, interval 6 and ease
  factor 2.5, a rating of 4 gives a record with repetition 2 and interval 6.
\<close>

theorem C1_example_interval_six:
  "repetition (calculateNextReview date_now
      (Some \<lparr> termId = tid, interval = 6, repetition = 1, efactor = 5 / 2,
              nextReviewDate = d \<rparr>) 4 tid') = 2
   \<and> interval (calculateNextReview date_now
      (Some \<lparr> termId = tid, interval = 6, repetition = 1, efactor = 5 / 2,
              nextReviewDate = d \<rparr>) 4 tid') = 6"
  by (simp add: calculateNextReview_def Let_def)

text \<open>
  Claim C1 as the specification words it (interval 15) fails on the code at the
  specification's own input.
\<close>

theorem C1_example_counterexample:
  "interval (calculateNextReview 0
      (Some \<lparr> termId = ''t'', interval = 6, repetition = 1, efactor = 5 / 2,
              nextReviewDate = 0 \<rparr>) 4 ''t'') \<noteq> 15"
  by (simp add: calculateNextReview_def Let_def)

text \<open>
  Claim C3, as the code has it: the scheduler and the due predicate have no \<open>now\<close>
  parameter and read the wall clock themselves. Their results are functions of the
  explicit arguments together with that clock reading: the clock enters the scheduler's
  result only through \<open>nextReviewDate\<close>, which is the reading plus \<open>interval\<close> days, and
  the due predicate compares the reading with the stored \<open>nextReviewDate\<close>.
\<close>

theorem C3_clock_dependence:
  "calculateNextReview clock1 p rating tid =
     (calculateNextReview clock2 p rating tid)
       \<lparr> nextReviewDate := clock1 + interval (calculateNextReview clock2 p rating tid) * oneDay \<rparr>
   \<and> isDue clock1 None
   \<and> isDue clock1 (Some q) = (nextReviewDate q \<le> clock1)"
  by (simp add: calculateNextReview_def isDue_def Let_def split: option.split prod.split)

text \<open>
  Claim C3 as the specification words it fails: two calls with identical explicit
  arguments return different results when the wall clock differs between them.
\<close>

theorem C3_determinism_counterexample:
  "calculateNextReview 0 None 5 ''t'' \<noteq> calculateNextReview 1000 None 5 ''t''
   \<and> isDue 0 (Some \<lparr> termId = ''t'', interval = 1, repetition = 1, efactor = 5 / 2,
                     nextReviewDate = 500 \<rparr>)
     \<noteq> isDue 1000 (Some \<lparr> termId = ''t'', interval = 1, repetition = 1, efactor = 5 / 2,
                          nextReviewDate = 500 \<rparr>)"
  by (simp add: calculateNextReview_def isDue_def Let_def)




text \<open>
  Claim C6: from an absent state (seeded with 2.5) or a stored ease factor of at least
  1.3, every finite sequence of ratings in 0..5, each applied by the scheduler at some
  clock reading, leaves an ease factor of at least 1.3.
\<close>

theorem C6_ease_factor_floor:
  assumes "13 / 10 \<le> easeOf p"
    and "\<forall>step \<in> set steps. validRating (snd step)"
  shows "13 / 10 \<le> easeOf (rateAll p steps tid)"
  using assms
proof (induction steps arbitrary: p)
  case Nil
  then show ?case by simp
next
  case (Cons step rest)
  obtain date_now rating where step: "step = (date_now, rating)"
    by (cases step)
  have "13 / 10 \<le> easeOf (Some (calculateNextReview date_now p rating tid))"
    using calculateNextReview_efactor_floor [of date_now p rating tid]
    by (simp add: easeOf_def)
  moreover have "\<forall>s \<in> set rest. validRating (snd s)"
    using Cons.prems(2) by simp
  ultimately show ?case
    using Cons.IH step by simp
qed

theorem C6_ease_factor_floor_witness:
  "13 / 10 \<le> easeOf None
   \<and> validRating 0 \<and> validRating 5
   \<and> 13 / 10 \<le> easeOf (rateAll None [(0, 0), (10, 0), (20, 0), (30, 5)] ''t'')
   \<and> easeOf (rateAll None [(0, 0), (10, 0), (20, 0)] ''t'') = 13 / 10"
proof -
  have h1: "13 / 10 \<le> easeOf None" by (simp add: easeOf_def)
  have h2: "\<forall>step \<in> set [(0, 0), (10, 0), (20, 0), (30, 5)]. validRating (snd step)"
    by (simp add: validRating_def)
  have h3: "easeOf (rateAll None [(0, 0), (10, 0), (20, 0)] ''t'') = 13 / 10"
    by (simp add: easeOf_def calculateNextReview_def Let_def)
  have h4: "validRating 0 \<and> validRating 5"
    by (simp add: validRating_def)
  show ?thesis
    using h1 h3 h4 C6_ease_factor_floor [OF h1 h2, of "''t''"] by blast
qed

text \<open>
  Claim C7, as the code has it: for every progress state and every rating of 3 or more
  the new repetition is the previous one plus 1, and the new interval is positive exactly
  when the previous repetition is 0 or 1 or the product of the previous interval and
  ease factor is at least one half (so that it does not round to 0).
\<close>

theorem C7_success_step:
  assumes "3 \<le> rating"
  shows "repetition (calculateNextReview date_now p rating tid) =
           (case p of None \<Rightarrow> 0 | Some q \<Rightarrow> repetition q) + 1
    \<and> (0 < interval (calculateNextReview date_now p rating tid)) =
        (case p of
           None \<Rightarrow> True
         | Some q \<Rightarrow> repetition q = 0 \<or> repetition q = 1 \<or> 1 / 2 \<le> interval q * efactor q)"
proof -
  have round_pos: "(0 < Math_round x) = (1 / 2 \<le> x)" for x
  proof -
    have "(0 < Math_round x) = (1 \<le> \<lfloor>x + 1 / 2\<rfloor>)"
      by (simp add: Math_round_def)
    also have "\<dots> = (1 \<le> x + 1 / 2)"
      by (simp add: le_floor_iff)
    finally show ?thesis by auto
  qed
  show ?thesis
    using assms
    by (auto simp: calculateNextReview_def Let_def round_pos split: option.split)
qed

theorem C7_success_step_witness:
  "(3::rat) \<le> 4
   \<and> repetition (calculateNextReview 0
        (Some \<lparr> termId = ''t'', interval = 6, repetition = 2, efactor = 5 / 2,
                nextReviewDate = 0 \<rparr>) 4 ''t'') = 3
   \<and> 0 < interval (calculateNextReview 0
        (Some \<lparr> termId = ''t'', interval = 6, repetition = 2, efactor = 5 / 2,
                nextReviewDate = 0 \<rparr>) 4 ''t'')"
proof -
  have h: "(3::rat) \<le> 4" by simp
  show ?thesis
    using C7_success_step [OF h, of 0
        "Some \<lparr> termId = ''t'', interval = 6, repetition = 2, efactor = 5 / 2,
                nextReviewDate = 0 \<rparr>" "''t''"]
    by simp
qed

text \<open>
  Claim C7 as the specification words it fails: a record with repetition 2 and interval
  0 satisfies the claim's conditions, and a rating of 3 leaves its interval at 0.
\<close>

theorem C7_interval_positive_counterexample:
  "(0::rat) \<le> 2 \<and> (0::rat) \<le> 0 \<and> (3::rat) \<le> 3
   \<and> \<not> 0 < interval (calculateNextReview 0
        (Some \<lparr> termId = ''t'', interval = 0, repetition = 2, efactor = 5 / 2,
                nextReviewDate = 0 \<rparr>) 3 ''t'')"
  by (simp add: calculateNextReview_def Math_round_def Let_def)

text \<open>
  Claim C9: the due predicate is monotonic in the clock reading. With the progress state
  unchanged, a state that is due at one reading is due at every later reading.
\<close>

theorem C9_isDue_monotonic:
  assumes "now \<le> later" and "isDue now prog"
  shows "isDue later prog"
  using assms by (cases prog) (auto simp: isDue_def)

theorem C9_isDue_monotonic_witness:
  "(500::rat) \<le> 900
   \<and> isDue 500 (Some \<lparr> termId = ''t'', interval = 1, repetition = 1, efactor = 5 / 2,
                       nextReviewDate = 500 \<rparr>)
   \<and> isDue 900 (Some \<lparr> termId = ''t'', interval = 1, repetition = 1, efactor = 5 / 2,
                       nextReviewDate = 500 \<rparr>)"
proof -
  have h1: "(500::rat) \<le> 900" by simp
  have h2: "isDue 500 (Some \<lparr> termId = ''t'', interval = 1, repetition = 1,
                efactor = 5 / 2, nextReviewDate = 500 \<rparr>)"
    by (simp add: isDue_def)
  show ?thesis
    using h1 h2 C9_isDue_monotonic [OF h1 h2] by blast
qed

section \<open>Properties of the session queue manager\<close>

lemma handleRate_last_card:
  assumes "truthyString (selectedChapter snap)"
    and "sessionDeck snap \<noteq> []"
    and "activeCardIndex snap = length (sessionDeck snap) - 1"
  shows "sessionDeck (handleRate now_review now_stop rating snap) = []"
  using assms
  by (auto simp: handleRate_def stopSessionTimer_def saveTime_def saveProgress_def Let_def)

text \<open>
  Claim C2 on the code: a session whose deck holds one card, shown at index 0, receives
  the rating 1. The card is appended, but the test for the last card reads the deck
  from before the append, so the handler takes the end-of-session branch: the deck is
  emptied and the summary view is rendered.
\<close>

theorem C2_recycle_last_card_ends_session:
  "phaseOf \<lparr> selectedChapter = Some ''ch1'', progress = Map.empty,
       sessionDeck = [\<lparr> term_id = ''t1'', chapterId = ''ch1'', term_text = ''Bit'',
                        term_definition = ''A binary digit'', aiExplanation = None \<rparr>],
       activeCardIndex = 0, quizActive = False, totalStudyTime = 0,
       sessionStartTime = Some 1000, currentSessionDuration = 0, mixedCount = 20 \<rparr> = Active
   \<and> sessionDeck (handleRate 5000 5000 1
       \<lparr> selectedChapter = Some ''ch1'', progress = Map.empty,
         sessionDeck = [\<lparr> term_id = ''t1'', chapterId = ''ch1'', term_text = ''Bit'',
                          term_definition = ''A binary digit'', aiExplanation = None \<rparr>],
         activeCardIndex = 0, quizActive = False, totalStudyTime = 0,
         sessionStartTime = Some 1000, currentSessionDuration = 0, mixedCount = 20 \<rparr>) = []
   \<and> phaseOf (handleRate 5000 5000 1
       \<lparr> selectedChapter = Some ''ch1'', progress = Map.empty,
         sessionDeck = [\<lparr> term_id = ''t1'', chapterId = ''ch1'', term_text = ''Bit'',
                          term_definition = ''A binary digit'', aiExplanation = None \<rparr>],
         activeCardIndex = 0, quizActive = False, totalStudyTime = 0,
         sessionStartTime = Some 1000, currentSessionDuration = 0, mixedCount = 20 \<rparr>) = Complete"
  by (simp add: handleRate_def stopSessionTimer_def saveTime_def saveProgress_def phaseOf_def
      truthyString_def truthyNumber_def Let_def)

lemma slice0_take:
  assumes "1 \<le> e"
  shows "slice0 xs e = take (nat \<lfloor>e\<rfloor>) xs"
proof -
  have "0 \<le> e" using assms by simp
  then show ?thesis
    by (simp add: slice0_def truncNumber_def Let_def min_def)
qed

text \<open>
  Claim C5, as the code has it: the mixed session takes a prefix of the shuffled
  catalogue, whatever the progress of the terms. For a non-empty catalogue its size is
  \<open>max 1 (min n |pool|)\<close> with \<open>n\<close> truncated to an integer, which is
  \<open>min n |pool|\<close> whenever \<open>n\<close> is an integer of at least 1, and the session is active.
\<close>

theorem C5_mixed_session_size:
  assumes "mset (shuffle TERMS) = mset TERMS" and "TERMS \<noteq> []"
  shows "sessionDeck (startMixedSession date_now shuffle TERMS snap) =
           take (nat (max 1 (min \<lfloor>mixedCount snap\<rfloor> (int (length TERMS))))) (shuffle TERMS)
    \<and> length (sessionDeck (startMixedSession date_now shuffle TERMS snap)) =
           nat (max 1 (min \<lfloor>mixedCount snap\<rfloor> (int (length TERMS))))
    \<and> mset (sessionDeck (startMixedSession date_now shuffle TERMS snap)) \<subseteq># mset TERMS
    \<and> phaseOf (startMixedSession date_now shuffle TERMS snap) = Active
    \<and> (if mixedCount snap = of_int \<lfloor>mixedCount snap\<rfloor> \<and> 1 \<le> mixedCount snap
        then int (length (sessionDeck (startMixedSession date_now shuffle TERMS snap))) =
               min \<lfloor>mixedCount snap\<rfloor> (int (length TERMS))
        else True)"
proof -
  let ?n = "mixedCount snap"
  let ?all = "shuffle TERMS"
  let ?e = "max 1 (min ?n (of_nat (length ?all)))"
  let ?k = "nat (max 1 (min \<lfloor>?n\<rfloor> (int (length TERMS))))"
  have len: "length ?all = length TERMS"
    using assms(1) by (metis size_mset)
  have pos: "0 < length TERMS"
    using assms(2) by simp
  have e1: "1 \<le> ?e" by simp
  have fl: "\<lfloor>?e\<rfloor> = max 1 (min \<lfloor>?n\<rfloor> (int (length TERMS)))"
    by (simp add: max_def min_def len floor_le_iff le_floor_iff) linarith
  have deck: "sessionDeck (startMixedSession date_now shuffle TERMS snap) = take ?k ?all"
    using slice0_take [OF e1, of ?all] fl
    by (simp add: startMixedSession_def Let_def)
  have klen: "?k \<le> length TERMS"
  proof -
    have "max 1 (min \<lfloor>?n\<rfloor> (int (length TERMS))) \<le> int (length TERMS)"
      using pos by linarith
    then show ?thesis by linarith
  qed
  have size: "length (take ?k ?all) = ?k"
    using klen len by simp
  have sub: "mset (take ?k ?all) \<subseteq># mset TERMS"
  proof -
    have "mset (take ?k ?all) \<subseteq># mset (take ?k ?all) + mset (drop ?k ?all)"
      by simp
    also have "\<dots> = mset ?all"
      by (metis append_take_drop_id mset_append)
    finally show ?thesis using assms(1) by simp
  qed
  have ph: "phaseOf (startMixedSession date_now shuffle TERMS snap) = Active"
  proof -
    have "0 < ?k" by linarith
    then have "0 < length (take ?k ?all)" using size by simp
    then have nonempty:
      "0 < length (sessionDeck (startMixedSession date_now shuffle TERMS snap))"
      using deck by simp
    have chap:
      "selectedChapter (startMixedSession date_now shuffle TERMS snap) = Some ''MIXED''"
      by (simp add: startMixedSession_def Let_def)
    have quiz: "\<not> quizActive (startMixedSession date_now shuffle TERMS snap)"
      by (simp add: startMixedSession_def Let_def)
    show ?thesis
      unfolding phaseOf_def using nonempty chap quiz
      by (simp add: truthyString_def)
  qed
  have int_case: "int ?k = min \<lfloor>?n\<rfloor> (int (length TERMS))" if "1 \<le> ?n"
  proof -
    have "1 \<le> \<lfloor>?n\<rfloor>" using that by (simp add: le_floor_iff)
    then show ?thesis using pos by linarith
  qed
  show ?thesis
    using deck size sub ph int_case by simp
qed

theorem C5_mixed_session_size_witness:
  "mset (rev [\<lparr> term_id = ''t1'', chapterId = ''c'', term_text = ''Bit'',
                term_definition = ''d1'', aiExplanation = None \<rparr>,
              \<lparr> term_id = ''t2'', chapterId = ''c'', term_text = ''Byte'',
                term_definition = ''d2'', aiExplanation = None \<rparr>]) =
     mset [\<lparr> term_id = ''t1'', chapterId = ''c'', term_text = ''Bit'',
             term_definition = ''d1'', aiExplanation = None \<rparr>,
           \<lparr> term_id = ''t2'', chapterId = ''c'', term_text = ''Byte'',
             term_definition = ''d2'', aiExplanation = None \<rparr>]
   \<and> length (sessionDeck (startMixedSession 0 rev
        [\<lparr> term_id = ''t1'', chapterId = ''c'', term_text = ''Bit'',
            term_definition = ''d1'', aiExplanation = None \<rparr>,
          \<lparr> term_id = ''t2'', chapterId = ''c'', term_text = ''Byte'',
            term_definition = ''d2'', aiExplanation = None \<rparr>]
        \<lparr> selectedChapter = None, progress = Map.empty, sessionDeck = [],
          activeCardIndex = 0, quizActive = False, totalStudyTime = 0,
          sessionStartTime = None, currentSessionDuration = 0, mixedCount = 5 \<rparr>)) = 2"
proof -
  let ?t1 = "\<lparr> term_id = ''t1'', chapterId = ''c'', term_text = ''Bit'',
                term_definition = ''d1'', aiExplanation = None \<rparr>"
  let ?t2 = "\<lparr> term_id = ''t2'', chapterId = ''c'', term_text = ''Byte'',
                term_definition = ''d2'', aiExplanation = None \<rparr>"
  let ?s = "\<lparr> selectedChapter = None, progress = Map.empty, sessionDeck = [],
          activeCardIndex = 0, quizActive = False, totalStudyTime = 0,
          sessionStartTime = None, currentSessionDuration = 0, mixedCount = 5 \<rparr>"
  have h1: "mset (rev [?t1, ?t2]) = mset [?t1, ?t2]" by simp
  have h2: "[?t1, ?t2] \<noteq> []" by simp
  show ?thesis
    using h1 h2
      C5_mixed_session_size [where shuffle = rev and TERMS = "[?t1, ?t2]"
        and date_now = 0 and snap = ?s]
    by simp
qed

text \<open>
  Claim C5 as the specification words it fails at \<open>n = 0\<close>: with a catalogue of two
  terms the deck holds one card, not \<open>min 0 2 = 0\<close>.
\<close>

theorem C5_mixed_session_size_counterexample:
  "int (length (sessionDeck (startMixedSession 0 (\<lambda>xs. xs)
        [\<lparr> term_id = ''t1'', chapterId = ''c'', term_text = ''Bit'',
            term_definition = ''d1'', aiExplanation = None \<rparr>,
          \<lparr> term_id = ''t2'', chapterId = ''c'', term_text = ''Byte'',
            term_definition = ''d2'', aiExplanation = None \<rparr>]
        \<lparr> selectedChapter = None, progress = Map.empty, sessionDeck = [],
          activeCardIndex = 0, quizActive = False, totalStudyTime = 0,
          sessionStartTime = None, currentSessionDuration = 0, mixedCount = 0 \<rparr>)))
   \<noteq> min 0 2"
  by (simp add: startMixedSession_def slice0_def truncNumber_def Let_def)

section \<open>Properties of the question generator\<close>

lemma filter_other_ids_length:
  assumes "distinct (map f xs)" and "t \<in> set xs"
  shows "length (filter (\<lambda>x. f x \<noteq> f t) xs) = length xs - 1"
  using assms
proof (induction xs)
  case Nil
  then show ?case by simp
next
  case (Cons x xs)
  show ?case
  proof (cases "x = t")
    case True
    have "f t \<notin> f ` set xs"
      using Cons.prems(1) True by simp
    then have "\<forall>y \<in> set xs. f y \<noteq> f t"
      by (metis imageI)
    then have "filter (\<lambda>x. f x \<noteq> f t) xs = xs"
      by (simp add: filter_id_conv)
    then show ?thesis using True by simp
  next
    case False
    then have mem: "t \<in> set xs" using Cons.prems(2) by simp
    then have "f x \<noteq> f t" using Cons.prems(1) by auto
    moreover have "0 < length xs" using mem by (cases xs) auto
    ultimately show ?thesis using Cons.IH Cons.prems(1) mem by simp
  qed
qed

lemma generateQuiz_questions:
  assumes "terms \<noteq> []" and "mset (shuffle terms) = mset terms"
  shows "length (questions (generateQuiz shuffle draws terms st)) = min 10 (length terms)"
    and "i < min 10 (length terms) \<Longrightarrow>
         questions (generateQuiz shuffle draws terms st) ! i =
           makeQuestion (draws i) terms (shuffle terms ! i)"
proof -
  have len: "length (shuffle terms) = length terms"
    using assms(2) by (metis size_mset)
  show "length (questions (generateQuiz shuffle draws terms st)) = min 10 (length terms)"
    using assms(1) len by (simp add: generateQuiz_def Let_def)
  show "questions (generateQuiz shuffle draws terms st) ! i =
          makeQuestion (draws i) terms (shuffle terms ! i)"
    if "i < min 10 (length terms)"
    using assms(1) len that by (simp add: generateQuiz_def Let_def nth_enumerate_eq)
qed

lemma makeQuestion_multiple_choice:
  assumes ids: "distinct (map term_id terms)" and mem: "t \<in> set terms"
    and draw: "typeDraw d > 1 / 2"
    and perm_d: "\<And>xs. mset (sortDistractors d xs) = mset xs"
    and perm_o: "\<And>xs. mset (sortOptions d xs) = mset xs"
  shows "\<exists>ds. distinct ds \<and> set ds \<subseteq> set terms \<and> t \<notin> set ds
           \<and> length ds = min (length terms - 1) 3
           \<and> mset (options (makeQuestion d terms t)) =
               mset (map term_text ds) + {# term_text t #}"
proof -
  let ?others = "filter (\<lambda>x. term_id x \<noteq> term_id t) terms"
  let ?ds = "take 3 (sortDistractors d ?others)"
  have dist_terms: "distinct terms"
    using ids by (simp add: distinct_map)
  have set_sorted: "set (sortDistractors d ?others) = set ?others"
    using perm_d [of ?others] by (rule mset_eq_setD)
  have dist_sorted: "distinct (sortDistractors d ?others)"
    using perm_d [of ?others] dist_terms by (metis distinct_filter mset_eq_imp_distinct_iff)
  have len_sorted: "length (sortDistractors d ?others) = length terms - 1"
    using perm_d [of ?others] filter_other_ids_length [OF ids mem] by (metis size_mset)
  have "distinct ?ds"
    using dist_sorted by simp
  moreover have sub: "set ?ds \<subseteq> set ?others"
    using set_sorted set_take_subset by fastforce
  then have "set ?ds \<subseteq> set terms" and "t \<notin> set ?ds"
    by auto
  moreover have "length ?ds = min (length terms - 1) 3"
    using len_sorted by simp
  moreover have "mset (options (makeQuestion d terms t)) =
      mset (map term_text ?ds) + {# term_text t #}"
    using draw perm_o by (simp add: makeQuestion_def Let_def)
  ultimately show ?thesis by blast
qed

text \<open>
  Claim C10: for a pool of at least one term with unique ids, whatever its size, the
  question at position \<open>i\<close> whose type draw exceeds one half is a multiple-choice question
  on a term of the pool. Its options are, in some order, the display string of that term
  and the display strings of \<open>min (|pool| - 1) 3\<close> distinct other terms of the pool, so
  there are \<open>min (|pool| - 1) 3 + 1\<close> of them, fewer than 4 for a pool of fewer than 4
  terms. The random sorts are taken to return permutations.
\<close>

theorem C10_small_pool_multiple_choice:
  assumes "terms \<noteq> []"
    and "distinct (map term_id terms)"
    and "mset (shuffle terms) = mset terms"
    and "\<And>xs. mset (sortDistractors (draws i) xs) = mset xs"
    and "\<And>xs. mset (sortOptions (draws i) xs) = mset xs"
    and "i < min 10 (length terms)"
    and "typeDraw (draws i) > 1 / 2"
  shows "length (questions (generateQuiz shuffle draws terms st)) = min 10 (length terms)
    \<and> question_type (questions (generateQuiz shuffle draws terms st) ! i) = MultipleChoice
    \<and> question_term (questions (generateQuiz shuffle draws terms st) ! i) \<in> set terms
    \<and> length (options (questions (generateQuiz shuffle draws terms st) ! i)) =
        min (length terms - 1) 3 + 1
    \<and> (\<exists>ds. distinct ds \<and> set ds \<subseteq> set terms
          \<and> question_term (questions (generateQuiz shuffle draws terms st) ! i) \<notin> set ds
          \<and> length ds = min (length terms - 1) 3
          \<and> mset (options (questions (generateQuiz shuffle draws terms st) ! i)) =
              mset (map term_text ds)
              + {# term_text (question_term (questions (generateQuiz shuffle draws terms st) ! i)) #})"
proof -
  let ?t = "shuffle terms ! i"
  let ?q = "questions (generateQuiz shuffle draws terms st) ! i"
  have q: "?q = makeQuestion (draws i) terms ?t"
    using generateQuiz_questions(2)
        [where shuffle = shuffle and draws = draws and terms = terms and st = st and i = i]
      assms(1) assms(3) assms(6)
    by simp
  have len: "length (shuffle terms) = length terms"
    using assms(3) by (metis size_mset)
  have "?t \<in> set (shuffle terms)"
    using assms(6) len by simp
  then have mem: "?t \<in> set terms"
    using assms(3) by (metis mset_eq_setD)
  have qterm: "question_term ?q = ?t"
    unfolding q by (simp add: makeQuestion_def Let_def)
  have qtype: "question_type ?q = MultipleChoice"
    unfolding q using assms(7) by (simp add: makeQuestion_def Let_def)
  obtain ds where ds: "distinct ds" "set ds \<subseteq> set terms" "?t \<notin> set ds"
      "length ds = min (length terms - 1) 3"
      "mset (options ?q) = mset (map term_text ds) + {# term_text ?t #}"
    using makeQuestion_multiple_choice [OF assms(2) mem assms(7) assms(4) assms(5)]
    unfolding q by blast
  have "size (mset (options ?q)) = size (mset (map term_text ds) + {# term_text ?t #})"
    using ds(5) by simp
  then have nopts: "length (options ?q) = min (length terms - 1) 3 + 1"
    using ds(4) by simp
  have "length (questions (generateQuiz shuffle draws terms st)) = min 10 (length terms)"
    using generateQuiz_questions(1)
        [where shuffle = shuffle and draws = draws and terms = terms and st = st]
      assms(1) assms(3)
    by simp
  then show ?thesis
    using qtype qterm mem nopts ds by auto
qed

theorem C10_small_pool_multiple_choice_witness:
  "[\<lparr> term_id = ''t1'', chapterId = ''c'', term_text = ''Bit'',
       term_definition = ''d1'', aiExplanation = None \<rparr>,
     \<lparr> term_id = ''t2'', chapterId = ''c'', term_text = ''Byte'',
       term_definition = ''d2'', aiExplanation = None \<rparr>] \<noteq> []
   \<and> distinct (map term_id
       [\<lparr> term_id = ''t1'', chapterId = ''c'', term_text = ''Bit'',
           term_definition = ''d1'', aiExplanation = None \<rparr>,
         \<lparr> term_id = ''t2'', chapterId = ''c'', term_text = ''Byte'',
           term_definition = ''d2'', aiExplanation = None \<rparr>])
   \<and> question_type (questions (generateQuiz (\<lambda>xs. xs)
         (\<lambda>i. \<lparr> typeDraw = 3 / 4, sortDistractors = (\<lambda>xs. xs), sortOptions = rev \<rparr>)
         [\<lparr> term_id = ''t1'', chapterId = ''c'', term_text = ''Bit'',
             term_definition = ''d1'', aiExplanation = None \<rparr>,
           \<lparr> term_id = ''t2'', chapterId = ''c'', term_text = ''Byte'',
             term_definition = ''d2'', aiExplanation = None \<rparr>]
         \<lparr> questions = [], currentIndex = 0, score = 0, showSummary = False,
           inputAnswer = [], feedback = None, selectedOption = None \<rparr>) ! 0) = MultipleChoice
   \<and> length (options (questions (generateQuiz (\<lambda>xs. xs)
         (\<lambda>i. \<lparr> typeDraw = 3 / 4, sortDistractors = (\<lambda>xs. xs), sortOptions = rev \<rparr>)
         [\<lparr> term_id = ''t1'', chapterId = ''c'', term_text = ''Bit'',
             term_definition = ''d1'', aiExplanation = None \<rparr>,
           \<lparr> term_id = ''t2'', chapterId = ''c'', term_text = ''Byte'',
             term_definition = ''d2'', aiExplanation = None \<rparr>]
         \<lparr> questions = [], currentIndex = 0, score = 0, showSummary = False,
           inputAnswer = [], feedback = None, selectedOption = None \<rparr>) ! 0)) = 2"
proof -
  let ?t1 = "\<lparr> term_id = ''t1'', chapterId = ''c'', term_text = ''Bit'',
                term_definition = ''d1'', aiExplanation = None \<rparr>"
  let ?t2 = "\<lparr> term_id = ''t2'', chapterId = ''c'', term_text = ''Byte'',
                term_definition = ''d2'', aiExplanation = None \<rparr>"
  let ?d = "\<lparr> typeDraw = 3 / 4, sortDistractors = (\<lambda>xs. xs), sortOptions = rev \<rparr>"
  let ?st = "\<lparr> questions = [], currentIndex = 0, score = 0, showSummary = False,
           inputAnswer = [], feedback = None, selectedOption = None \<rparr>"
  have h1: "[?t1, ?t2] \<noteq> []" by simp
  have h2: "distinct (map term_id [?t1, ?t2])" by simp
  show ?thesis
    using h1 h2
      C10_small_pool_multiple_choice [where terms = "[?t1, ?t2]" and shuffle = "\<lambda>xs. xs"
        and draws = "\<lambda>i. ?d" and i = 0 and st = ?st]
    by simp
qed

section \<open>The recursive distance is the least number of edits\<close>

lemma levenshtein_Nil2: "levenshtein xs [] = length xs"
  by (cases xs) simp_all

lemma edits_insert_all: "edits (length ys) [] ys"
  by (induction ys) (auto intro: edits.intros)

lemma edits_delete_all: "edits (length xs) xs []"
  by (induction xs) (auto intro: edits.intros)

lemma edits_levenshtein: "edits (levenshtein xs ys) xs ys"
proof (induction xs ys rule: levenshtein.induct)
  case (1 ys)
  show ?case by (simp add: edits_insert_all)
next
  case (2 x xs)
  show ?case using edits_delete_all [of "x # xs"] by simp
next
  case (3 x xs y ys)
  let ?d = "levenshtein xs (y # ys) + 1"
  let ?i = "levenshtein (x # xs) ys + 1"
  let ?s = "levenshtein xs ys + (if x = y then 0 else 1)"
  have del: "edits ?d (x # xs) (y # ys)"
    using edits_del [OF "3.IH"(1)] by simp
  have ins: "edits ?i (x # xs) (y # ys)"
    using edits_ins [OF "3.IH"(2)] by simp
  have sub: "edits ?s (x # xs) (y # ys)"
    using edits_keep [OF "3.IH"(3)] edits_subst [OF "3.IH"(3)] by simp
  have "min (min ?d ?i) ?s = ?d \<or> min (min ?d ?i) ?s = ?i \<or> min (min ?d ?i) ?s = ?s"
    by (simp add: min_def)
  then have "edits (min (min ?d ?i) ?s) (x # xs) (y # ys)"
    using del ins sub by metis
  then show ?case by simp
qed

lemma levenshtein_le_edits: "edits n xs ys \<Longrightarrow> levenshtein xs ys \<le> n"
proof (induction rule: edits.induct)
  case edits_nil
  show ?case by simp
next
  case (edits_keep n xs ys x)
  have "levenshtein (x # xs) (x # ys) \<le> levenshtein xs ys"
    by simp
  then show ?case using edits_keep.IH by linarith
next
  case (edits_subst n xs ys x y)
  have "levenshtein (x # xs) (y # ys) \<le> levenshtein xs ys + (if x = y then 0 else 1)"
    unfolding levenshtein.simps by (rule min.cobounded2)
  also have "\<dots> \<le> Suc n"
    using edits_subst.IH by simp
  finally show ?case .
next
  case (edits_del n xs ys x)
  then show ?case
    by (cases ys) (simp_all add: levenshtein_Nil2)
next
  case (edits_ins n xs ys y)
  then show ?case
    by (cases xs) simp_all
qed

lemma edits_snoc_keep: "edits n xs ys \<Longrightarrow> edits n (xs @ [x]) (ys @ [x])"
  by (induction rule: edits.induct) (auto intro: edits.intros)

lemma edits_snoc_subst: "edits n xs ys \<Longrightarrow> edits (Suc n) (xs @ [x]) (ys @ [y])"
  by (induction rule: edits.induct) (auto intro: edits.intros)

lemma edits_snoc_del: "edits n xs ys \<Longrightarrow> edits (Suc n) (xs @ [x]) ys"
  by (induction rule: edits.induct) (auto intro: edits.intros)

lemma edits_snoc_ins: "edits n xs ys \<Longrightarrow> edits (Suc n) xs (ys @ [y])"
  by (induction rule: edits.induct) (auto intro: edits.intros)

lemma edits_rev: "edits n xs ys \<Longrightarrow> edits n (rev xs) (rev ys)"
  by (induction rule: edits.induct)
    (auto intro: edits_nil edits_snoc_keep edits_snoc_subst edits_snoc_del edits_snoc_ins)

lemma levenshtein_rev_le: "levenshtein (rev xs) (rev ys) \<le> levenshtein xs ys"
  by (rule levenshtein_le_edits) (rule edits_rev, rule edits_levenshtein)

lemma levenshtein_rev: "levenshtein (rev xs) (rev ys) = levenshtein xs ys"
  using levenshtein_rev_le [of xs ys] levenshtein_rev_le [of "rev xs" "rev ys"] by simp

lemma levenshtein_snoc:
  "levenshtein (xs @ [x]) (ys @ [y]) =
     min (min (levenshtein xs (ys @ [y]) + 1) (levenshtein (xs @ [x]) ys + 1))
         (levenshtein xs ys + (if x = y then 0 else 1))"
proof -
  have "levenshtein (xs @ [x]) (ys @ [y]) = levenshtein (x # rev xs) (y # rev ys)"
    using levenshtein_rev [of "xs @ [x]" "ys @ [y]"] by simp
  moreover have "levenshtein (rev xs) (y # rev ys) = levenshtein xs (ys @ [y])"
    using levenshtein_rev [of xs "ys @ [y]"] by simp
  moreover have "levenshtein (x # rev xs) (rev ys) = levenshtein (xs @ [x]) ys"
    using levenshtein_rev [of "xs @ [x]" ys] by simp
  ultimately show ?thesis
    by (simp add: levenshtein_rev)
qed

text \<open>The distance is the least number of edits that turn one string into the other.\<close>

lemma levenshtein_least_edits:
  "edits (levenshtein xs ys) xs ys \<and> (\<forall>n. edits n xs ys \<longrightarrow> levenshtein xs ys \<le> n)"
  using edits_levenshtein levenshtein_le_edits by blast

section \<open>The matrix computes the recursive distance\<close>

lemma levMatrix_nth:
  assumes "r \<le> length b" and "c \<le> length a"
  shows "levMatrix a b F ! r ! c =
           (if F r c then Some (levenshtein (take c a) (take r b)) else None)"
proof -
  have r: "r < length [0..<length b + 1]" using assms(1) by simp
  have c: "c < length [0..<length a + 1]" using assms(2) by simp
  have "[0..<length b + 1] ! r = r"
    using assms(1) by (metis add_0 diff_zero length_upt nth_upt r)
  moreover have "[0..<length a + 1] ! c = c"
    using assms(2) by (metis add_0 diff_zero length_upt nth_upt c)
  ultimately show ?thesis
    unfolding levMatrix_def using r c by (simp only: nth_map)
qed

lemma levMatrix_length: "length (levMatrix a b F) = length b + 1"
  by (simp add: levMatrix_def)

lemma levMatrix_row_length:
  "r \<le> length b \<Longrightarrow> length (levMatrix a b F ! r) = length a + 1"
  by (simp add: levMatrix_def del: upt_Suc)

lemma matrix_eqI:
  assumes "length m = length b + 1" and "length m' = length b + 1"
    and "\<And>r. r \<le> length b \<Longrightarrow> length (m ! r) = length a + 1"
    and "\<And>r. r \<le> length b \<Longrightarrow> length (m' ! r) = length a + 1"
    and "\<And>r c. r \<le> length b \<Longrightarrow> c \<le> length a \<Longrightarrow> m ! r ! c = m' ! r ! c"
  shows "m = (m' :: matrix)"
proof (rule nth_equalityI)
  show "length m = length m'" using assms(1,2) by simp
next
  fix r assume "r < length m"
  then have r: "r \<le> length b" using assms(1) by simp
  show "m ! r = m' ! r"
  proof (rule nth_equalityI)
    show "length (m ! r) = length (m' ! r)" using assms(3,4) r by simp
  next
    fix c assume "c < length (m ! r)"
    then have "c \<le> length a" using assms(3) r by simp
    then show "m ! r ! c = m' ! r ! c" using assms(5) r by simp
  qed
qed

lemma levMatrix_cong:
  assumes "\<And>r c. r \<le> length b \<Longrightarrow> c \<le> length a \<Longrightarrow> F r c = G r c"
  shows "levMatrix a b F = levMatrix a b G"
  by (rule matrix_eqI [where a = a and b = b])
    (simp_all add: levMatrix_length levMatrix_row_length levMatrix_nth assms)

lemma setCell_levMatrix:
  assumes "j \<le> length b" and "i \<le> length a"
    and "v = Some (levenshtein (take i a) (take j b))"
  shows "setCell (levMatrix a b F) j i v = levMatrix a b (\<lambda>r c. F r c \<or> (r = j \<and> c = i))"
proof (rule matrix_eqI [where a = a and b = b])
  show "length (setCell (levMatrix a b F) j i v) = length b + 1"
    by (simp add: setCell_def levMatrix_length)
  show "length (levMatrix a b (\<lambda>r c. F r c \<or> (r = j \<and> c = i))) = length b + 1"
    by (simp add: levMatrix_length)
  show "length (setCell (levMatrix a b F) j i v ! r) = length a + 1" if "r \<le> length b" for r
    using that assms(1)
    by (cases "r = j") (simp_all add: setCell_def levMatrix_length levMatrix_row_length)
  show "length (levMatrix a b (\<lambda>r c. F r c \<or> (r = j \<and> c = i)) ! r) = length a + 1"
    if "r \<le> length b" for r
    using that by (simp add: levMatrix_row_length)
  show "setCell (levMatrix a b F) j i v ! r ! c =
          levMatrix a b (\<lambda>r c. F r c \<or> (r = j \<and> c = i)) ! r ! c"
    if "r \<le> length b" and "c \<le> length a" for r c
  proof (cases "r = j")
    case True
    have "setCell (levMatrix a b F) j i v ! j = (levMatrix a b F ! j)[i := v]"
      using assms(1) by (simp add: setCell_def levMatrix_length)
    then show ?thesis
      using True that assms
      by (cases "c = i") (simp_all add: levMatrix_nth levMatrix_row_length)
  next
    case False
    then have "setCell (levMatrix a b F) j i v ! r = levMatrix a b F ! r"
      by (simp add: setCell_def)
    then show ?thesis
      using False that by (simp add: levMatrix_nth)
  qed
qed

lemma initial_matrix:
  "replicate (length b + 1) (replicate (length a + 1) None) = levMatrix a b (\<lambda>r c. False)"
  by (simp add: levMatrix_def map_replicate_const del: upt_Suc replicate_Suc)

lemma first_row_loop:
  assumes "k \<le> length a + 1"
  shows "fold (\<lambda>i m. setCell m 0 i (Some i)) [0..<k] (levMatrix a b (\<lambda>r c. False)) =
           levMatrix a b (\<lambda>r c. r = 0 \<and> c < k)"
  using assms
proof (induction k)
  case 0
  show ?case by simp
next
  case (Suc k)
  have k: "k \<le> length a" using Suc.prems by simp
  have v: "Some k = Some (levenshtein (take k a) (take 0 b))"
    using k by (simp add: levenshtein_Nil2)
  have "fold (\<lambda>i m. setCell m 0 i (Some i)) [0..<Suc k] (levMatrix a b (\<lambda>r c. False)) =
          setCell (levMatrix a b (\<lambda>r c. r = 0 \<and> c < k)) 0 k (Some k)"
    using Suc.IH k by simp
  also have "\<dots> = levMatrix a b (\<lambda>r c. (r = 0 \<and> c < k) \<or> (r = 0 \<and> c = k))"
    by (rule setCell_levMatrix [OF _ _ v]) (use k in simp_all)
  also have "\<dots> = levMatrix a b (\<lambda>r c. r = 0 \<and> c < Suc k)"
    by (rule levMatrix_cong) auto
  finally show ?case .
qed

lemma first_column_loop:
  assumes "k \<le> length b + 1"
  shows "fold (\<lambda>j m. setCell m j 0 (Some j)) [0..<k] (levMatrix a b (\<lambda>r c. r = 0)) =
           levMatrix a b (\<lambda>r c. r = 0 \<or> (c = 0 \<and> r < k))"
  using assms
proof (induction k)
  case 0
  show ?case by simp
next
  case (Suc k)
  have k: "k \<le> length b" using Suc.prems by simp
  have v: "Some k = Some (levenshtein (take 0 a) (take k b))"
    using k by simp
  have "fold (\<lambda>j m. setCell m j 0 (Some j)) [0..<Suc k] (levMatrix a b (\<lambda>r c. r = 0)) =
          setCell (levMatrix a b (\<lambda>r c. r = 0 \<or> (c = 0 \<and> r < k))) k 0 (Some k)"
    using Suc.IH k by simp
  also have "\<dots> = levMatrix a b (\<lambda>r c. (r = 0 \<or> (c = 0 \<and> r < k)) \<or> (r = k \<and> c = 0))"
    by (rule setCell_levMatrix [OF _ _ v]) (use k in simp_all)
  also have "\<dots> = levMatrix a b (\<lambda>r c. r = 0 \<or> (c = 0 \<and> r < Suc k))"
    by (rule levMatrix_cong) auto
  finally show ?case .
qed

lemma levCell_levMatrix:
  assumes j: "1 \<le> j" "j \<le> length b" and i: "1 \<le> i" "i \<le> length a"
  shows "levCell a b j i (levMatrix a b (\<lambda>r c. r = 0 \<or> c = 0 \<or> r < j \<or> (r = j \<and> c < i))) =
           levMatrix a b (\<lambda>r c. r = 0 \<or> c = 0 \<or> r < j \<or> (r = j \<and> c < Suc i))"
proof -
  let ?F = "\<lambda>r c. r = 0 \<or> c = 0 \<or> r < j \<or> (r = j \<and> c < i)"
  let ?m = "levMatrix a b ?F"
  let ?xs = "take (i - 1) a" and ?ys = "take (j - 1) b"
  let ?x = "a ! (i - 1)" and ?y = "b ! (j - 1)"
  have ta: "take i a = ?xs @ [?x]"
    using i by (metis Suc_diff_1 Suc_le_lessD less_eq_Suc_le take_Suc_conv_app_nth One_nat_def)
  have tb: "take j b = ?ys @ [?y]"
    using j by (metis Suc_diff_1 Suc_le_lessD less_eq_Suc_le take_Suc_conv_app_nth One_nat_def)
  have left: "?m ! j ! (i - 1) = Some (levenshtein ?xs (take j b))"
    using j i by (simp add: levMatrix_nth)
  have up: "?m ! (j - 1) ! i = Some (levenshtein (take i a) ?ys)"
    using j i by (simp add: levMatrix_nth)
  have diag: "?m ! (j - 1) ! (i - 1) = Some (levenshtein ?xs ?ys)"
    using j i by (simp add: levMatrix_nth)
  have snoc: "levenshtein (?xs @ [?x]) (?ys @ [?y]) =
      min (min (levenshtein ?xs (?ys @ [?y]) + 1) (levenshtein (?xs @ [?x]) ?ys + 1))
          (levenshtein ?xs ?ys + (if ?x = ?y then 0 else 1))"
    by (rule levenshtein_snoc)
  have val: "min (min (levenshtein ?xs (take j b) + 1) (levenshtein (take i a) ?ys + 1))
                 (levenshtein ?xs ?ys + (if ?x = ?y then 0 else 1)) =
             levenshtein (take i a) (take j b)"
    using snoc unfolding ta [symmetric] tb [symmetric] by (rule sym)
  have "levCell a b j i ?m = setCell ?m j i (Some (levenshtein (take i a) (take j b)))"
    unfolding levCell_def Let_def left up diag numOf_def option.case val ..
  also have "\<dots> = levMatrix a b (\<lambda>r c. ?F r c \<or> (r = j \<and> c = i))"
    by (rule setCell_levMatrix) (use j i in simp_all)
  also have "\<dots> = levMatrix a b (\<lambda>r c. r = 0 \<or> c = 0 \<or> r < j \<or> (r = j \<and> c < Suc i))"
    by (rule levMatrix_cong) auto
  finally show ?thesis .
qed

lemma inner_loop:
  assumes j: "1 \<le> j" "j \<le> length b" and k: "1 \<le> k" "k \<le> length a + 1"
  shows "fold (\<lambda>i m. levCell a b j i m) [1..<k]
           (levMatrix a b (\<lambda>r c. r = 0 \<or> c = 0 \<or> r < j)) =
         levMatrix a b (\<lambda>r c. r = 0 \<or> c = 0 \<or> r < j \<or> (r = j \<and> c < k))"
  using k
proof (induction k)
  case 0
  then show ?case by simp
next
  case (Suc k)
  show ?case
  proof (cases "k = 0")
    case True
    have "levMatrix a b (\<lambda>r c. r = 0 \<or> c = 0 \<or> r < j) =
          levMatrix a b (\<lambda>r c. r = 0 \<or> c = 0 \<or> r < j \<or> (r = j \<and> c < Suc 0))"
      by (rule levMatrix_cong) auto
    then show ?thesis using True by simp
  next
    case False
    then have k1: "1 \<le> k" and k2: "k \<le> length a" using Suc.prems by simp_all
    have "fold (\<lambda>i m. levCell a b j i m) [1..<Suc k]
            (levMatrix a b (\<lambda>r c. r = 0 \<or> c = 0 \<or> r < j)) =
          levCell a b j k (levMatrix a b (\<lambda>r c. r = 0 \<or> c = 0 \<or> r < j \<or> (r = j \<and> c < k)))"
      using Suc.IH k1 k2 by simp
    also have "\<dots> = levMatrix a b (\<lambda>r c. r = 0 \<or> c = 0 \<or> r < j \<or> (r = j \<and> c < Suc k))"
      by (rule levCell_levMatrix) (use j k1 k2 in simp_all)
    finally show ?thesis .
  qed
qed

lemma outer_loop:
  assumes k: "1 \<le> k" "k \<le> length b + 1"
  shows "fold (\<lambda>j m. fold (\<lambda>i m. levCell a b j i m) [1..<length a + 1] m) [1..<k]
           (levMatrix a b (\<lambda>r c. r = 0 \<or> c = 0)) =
         levMatrix a b (\<lambda>r c. r = 0 \<or> c = 0 \<or> r < k)"
  using k
proof (induction k)
  case 0
  then show ?case by simp
next
  case (Suc k)
  show ?case
  proof (cases "k = 0")
    case True
    have "levMatrix a b (\<lambda>r c. r = 0 \<or> c = 0) =
          levMatrix a b (\<lambda>r c. r = 0 \<or> c = 0 \<or> r < Suc 0)"
      by (rule levMatrix_cong) auto
    then show ?thesis using True by simp
  next
    case False
    then have k1: "1 \<le> k" and k2: "k \<le> length b" using Suc.prems by simp_all
    have "fold (\<lambda>j m. fold (\<lambda>i m. levCell a b j i m) [1..<length a + 1] m) [1..<Suc k]
            (levMatrix a b (\<lambda>r c. r = 0 \<or> c = 0)) =
          fold (\<lambda>i m. levCell a b k i m) [1..<length a + 1]
            (levMatrix a b (\<lambda>r c. r = 0 \<or> c = 0 \<or> r < k))"
      using Suc.IH k1 k2 by simp
    also have "\<dots> =
        levMatrix a b (\<lambda>r c. r = 0 \<or> c = 0 \<or> r < k \<or> (r = k \<and> c < length a + 1))"
      by (rule inner_loop) (use k1 k2 in simp_all)
    also have "\<dots> = levMatrix a b (\<lambda>r c. r = 0 \<or> c = 0 \<or> r < Suc k)"
      by (rule levMatrix_cong) auto
    finally show ?thesis .
  qed
qed

lemma getLevenshteinDistance_levenshtein:
  "getLevenshteinDistance a b = Some (levenshtein a b)"
proof -
  let ?m0 = "replicate (length b + 1) (replicate (length a + 1) None)"
  let ?m1 = "fold (\<lambda>i m. setCell m 0 i (Some i)) [0..<length a + 1] ?m0"
  let ?m2 = "fold (\<lambda>j m. setCell m j 0 (Some j)) [0..<length b + 1] ?m1"
  let ?m3 = "fold (\<lambda>j m. fold (\<lambda>i m. levCell a b j i m) [1..<length a + 1] m)
               [1..<length b + 1] ?m2"
  have "?m1 = levMatrix a b (\<lambda>r c. r = 0 \<and> c < length a + 1)"
    unfolding initial_matrix by (rule first_row_loop) simp
  also have "\<dots> = levMatrix a b (\<lambda>r c. r = 0)"
    by (rule levMatrix_cong) auto
  finally have m1: "?m1 = levMatrix a b (\<lambda>r c. r = 0)" .
  have "?m2 = levMatrix a b (\<lambda>r c. r = 0 \<or> (c = 0 \<and> r < length b + 1))"
    unfolding m1 by (rule first_column_loop) simp
  also have "\<dots> = levMatrix a b (\<lambda>r c. r = 0 \<or> c = 0)"
    by (rule levMatrix_cong) auto
  finally have m2: "?m2 = levMatrix a b (\<lambda>r c. r = 0 \<or> c = 0)" .
  have m3: "?m3 = levMatrix a b (\<lambda>r c. r = 0 \<or> c = 0 \<or> r < length b + 1)"
    unfolding m2 by (rule outer_loop) simp_all
  have "getLevenshteinDistance a b = ?m3 ! length b ! length a"
    by (simp add: getLevenshteinDistance_def Let_def)
  also have "\<dots> = Some (levenshtein a b)"
    unfolding m3 by (simp add: levMatrix_nth)
  finally show ?thesis .
qed


section \<open>Properties of the answer verifier\<close>

lemma floor_quarter: "\<lfloor>of_nat n * (1 / 4 :: number)\<rfloor> = int (n div 4)"
proof -
  have "of_nat n * (1 / 4 :: number) = of_nat n / of_nat 4"
    by simp
  then show ?thesis
    by (simp only: floor_divide_of_nat_eq)
qed

lemma fuzzyMatch_iff:
  "fuzzyMatch user cands =
     (\<exists>cand \<in> set cands. 3 < length cand
        \<and> int (levenshtein user cand) \<le> \<lfloor>of_nat (length cand) * (1 / 4 :: number)\<rfloor>)"
  by (induction cands)
    (auto simp: getLevenshteinDistance_levenshtein numOf_def Let_def simp del: of_nat_mult)

lemma checkAnswerSmart_iff:
  "checkAnswerSmart input correctTerm =
     (normalize input \<noteq> []
      \<and> (normalize input \<in> set (candidates correctTerm)
         \<or> (\<exists>cand \<in> set (candidates correctTerm). 3 < length cand
              \<and> int (levenshtein (normalize input) cand)
                  \<le> \<lfloor>of_nat (length cand) * (1 / 4 :: number)\<rfloor>)))"
proof -
  have target: "normalize correctTerm \<in> set (candidates correctTerm)"
    by (simp add: candidates_def Let_def)
  show ?thesis
    unfolding checkAnswerSmart_def Let_def fuzzyMatch_iff
    using target by auto
qed

text \<open>
  Claim C8: whenever some candidate of the term has more than 3 characters and its
  unit-cost Levenshtein distance from the normalized input is at most a quarter of its
  length, rounded down, \<open>checkAnswerSmart\<close> accepts the input. Conversely an accepted
  input either equals a candidate exactly or is within that tolerance of a candidate of
  more than 3 characters: a candidate of 3 characters or fewer is matched exactly only.
\<close>

theorem C8_fuzzy_match:
  "(\<forall>cand \<in> set (candidates correctTerm).
      3 < length cand
      \<and> int (levenshtein (normalize input) cand) \<le> \<lfloor>of_nat (length cand) * (1 / 4 :: number)\<rfloor>
      \<longrightarrow> checkAnswerSmart input correctTerm)
   \<and> (checkAnswerSmart input correctTerm \<longrightarrow>
        normalize input \<in> set (candidates correctTerm)
        \<or> (\<exists>cand \<in> set (candidates correctTerm). 3 < length cand
             \<and> int (levenshtein (normalize input) cand)
                 \<le> \<lfloor>of_nat (length cand) * (1 / 4 :: number)\<rfloor>))"
proof -
  have nonempty: "normalize input \<noteq> []"
    if "3 < length cand"
      and "int (levenshtein (normalize input) cand) \<le> \<lfloor>of_nat (length cand) * (1 / 4 :: number)\<rfloor>"
    for cand
  proof
    assume "normalize input = []"
    then have "int (length cand) \<le> int (length cand div 4)"
      using that(2) by (simp only: floor_quarter levenshtein.simps)
    then show False using that(1) by simp
  qed
  show ?thesis
    unfolding checkAnswerSmart_iff using nonempty by blast
qed

theorem C8_fuzzy_match_witness:
  "''abcd'' \<in> set (candidates ''abcd'')
   \<and> 3 < length ''abcd''
   \<and> int (levenshtein (normalize ''abcx'') ''abcd'')
       \<le> \<lfloor>of_nat (length ''abcd'') * (1 / 4 :: number)\<rfloor>
   \<and> normalize ''abcx'' \<notin> set (candidates ''abcd'')
   \<and> checkAnswerSmart ''abcx'' ''abcd''"
proof -
  have h1: "''abcd'' \<in> set (candidates ''abcd'')"
    by code_simp
  have h2: "3 < length ''abcd''"
    by simp
  have h3: "int (levenshtein (normalize ''abcx'') ''abcd'')
      \<le> \<lfloor>of_nat (length ''abcd'') * (1 / 4 :: number)\<rfloor>"
    by code_simp
  have h4: "normalize ''abcx'' \<notin> set (candidates ''abcd'')"
    by code_simp
  have "checkAnswerSmart ''abcx'' ''abcd''"
    using C8_fuzzy_match [where correctTerm = "''abcd''" and input = "''abcx''"] h1 h2 h3
    by blast
  then show ?thesis
    using h1 h2 h3 h4 by blast
qed

end
